theory Spec2Isabelle
  imports
    Main
    "HOL-Library.List_Lexorder"
    "HOL-Library.Product_Lexorder"
    "HOL-Library.Multiset"
    "HOL-Library.Sublist"
begin

section \<open>Strings and case mapping\<close>

text \<open>
  A Python \<open>str\<close> is a sequence of Unicode code points; a code point is a natural number
  and a string a list of them, ordered lexicographically by code point as Python orders
  strings.  \<open>str_of\<close> reads a string literal as the code points of its characters.
\<close>

type_synonym code_point = nat
type_synonym str = "code_point list"

definition str_of :: "string \<Rightarrow> str" where
  "str_of s = map of_char s"

text \<open>
  \<open>str.lower\<close>, \<open>str.islower\<close> and \<open>str.isupper\<close> are Python's, driven by the Unicode
  character database, which is a parameter here.  \<open>str.lower\<close> walks the string and
  replaces every code point by its lower-case mapping, one code point or more
  (U+0130 becomes U+0069 U+0307), looked up with the code points before and after it
  (U+03A3 becomes U+03C2 at the end of a word and U+03C3 elsewhere).  \<open>lower_full\<close> gives the
  first code point of the mapping and the rest; \<open>islower\<close> and \<open>isupper\<close> are the two
  predicates on a one-character string.
\<close>

record case_tables =
  lower_full :: "str \<Rightarrow> code_point \<Rightarrow> str \<Rightarrow> code_point \<times> str"
  islower :: "code_point \<Rightarrow> bool"
  isupper :: "code_point \<Rightarrow> bool"

fun lower_from :: "case_tables \<Rightarrow> str \<Rightarrow> str \<Rightarrow> str" where
  "lower_from T ls [] = []"
| "lower_from T ls (c # rs) =
     (case lower_full T ls c rs of
        (d, ds) \<Rightarrow> d # ds @ lower_from T (ls @ [c]) rs)"

definition lower :: "case_tables \<Rightarrow> str \<Rightarrow> str" where
  "lower T s = lower_from T [] s"

text \<open>
  The rows of the database for the code points below 256 (ASCII and Latin-1), for
  U+0130 (capital I with dot above) and for U+0307 (combining dot above), as Python has
  them.  The entry of every other code point is a placeholder, the code point itself,
  in neither case: the theorems about every table do not depend on it, and the evaluated
  ones use strings over the code points named here only.
\<close>

definition latin_lower_full :: "str \<Rightarrow> code_point \<Rightarrow> str \<Rightarrow> code_point \<times> str" where
  "latin_lower_full ls c rs =
     (if (65 \<le> c \<and> c \<le> 90) \<or> (192 \<le> c \<and> c \<le> 222 \<and> c \<noteq> 215) then (c + 32, [])
      else if c = 0x130 then (0x69, [0x307])
      else (c, []))"

definition latin_isupper :: "code_point \<Rightarrow> bool" where
  "latin_isupper c =
     ((65 \<le> c \<and> c \<le> 90) \<or> (192 \<le> c \<and> c \<le> 222 \<and> c \<noteq> 215) \<or> c = 0x130)"

definition latin_islower :: "code_point \<Rightarrow> bool" where
  "latin_islower c =
     ((97 \<le> c \<and> c \<le> 122) \<or> c = 170 \<or> c = 181 \<or> c = 186
      \<or> (223 \<le> c \<and> c \<le> 255 \<and> c \<noteq> 247))"

definition latin_tables :: case_tables where
  "latin_tables =
     \<lparr>lower_full = latin_lower_full, islower = latin_islower, isupper = latin_isupper\<rparr>"

section \<open>Scoring constants\<close>

definition SCORE_CONSECUTIVE :: int where "SCORE_CONSECUTIVE = 16"
definition SCORE_WORD_BOUNDARY :: int where "SCORE_WORD_BOUNDARY = 32"
definition SCORE_FIRST_CHAR :: int where "SCORE_FIRST_CHAR = 16"
definition SCORE_GAP_PENALTY :: int where "SCORE_GAP_PENALTY = - 3"

definition WORD_BOUNDARY_CHARS :: "code_point set" where
  "WORD_BOUNDARY_CHARS = set (str_of ''/_-. '')"

record FuzzyMatch =
  score :: int
  positions :: "nat list"

section \<open>The matcher\<close>

text \<open>
  \<open>_is_word_boundary(target, index)\<close>.  The matcher calls it only with
  \<open>index < len(target)\<close> (lemma \<open>scan_bounds\<close> below), so both reads are in range; with
  \<open>index = 0\<close> the function returns before reading.
\<close>

definition is_word_boundary :: "case_tables \<Rightarrow> str \<Rightarrow> nat \<Rightarrow> bool" where
  "is_word_boundary T target index =
     (if index = 0 then True
      else let prev_char = target ! (index - 1)
           in if prev_char \<in> WORD_BOUNDARY_CHARS then True
              else let curr_char = target ! index
                   in if islower T prev_char \<and> isupper T curr_char then True
                      else False)"

text \<open>
  The inner \<open>while target_idx < target_len\<close> loop up to its \<open>break\<close>: the cursor advances
  until the lower-cased target has the query character under it.  \<open>Some i\<close> is the index
  where the loop breaks, \<open>None\<close> the loop running out with \<open>found\<close> still false.
  \<open>target_len\<close> is \<open>len(target)\<close>, and \<open>target.lower()\<close> is never shorter than \<open>target\<close>
  (lemma \<open>length_lower_ge\<close> below), so the read \<open>target_lower[target_idx]\<close> is in range.
\<close>

function scan :: "str \<Rightarrow> nat \<Rightarrow> code_point \<Rightarrow> nat \<Rightarrow> nat option" where
  "scan target_lower target_len query_char target_idx =
     (if target_idx < target_len
      then if target_lower ! target_idx = query_char then Some target_idx
           else scan target_lower target_len query_char (target_idx + 1)
      else None)"
  by pat_completeness auto
termination
  by (relation "measure (\<lambda>(tl, n, c, i). n - i)") auto

declare scan.simps [simp del]

text \<open>The three scoring rules applied, in the source's order, to a match at \<open>target_idx\<close>.\<close>

definition score_match :: "case_tables \<Rightarrow> str \<Rightarrow> nat \<Rightarrow> nat \<Rightarrow> int \<Rightarrow> int \<Rightarrow> int" where
  "score_match T target query_idx target_idx prev_match_idx score0 =
     (let score1 = (if query_idx = 0 \<and> target_idx = 0 then score0 + SCORE_FIRST_CHAR
                    else score0);
          score2 = (if is_word_boundary T target target_idx then score1 + SCORE_WORD_BOUNDARY
                    else score1)
      in if prev_match_idx \<ge> 0
         then let gap = int target_idx - prev_match_idx - 1
              in if gap = 0 then score2 + SCORE_CONSECUTIVE
                 else score2 + gap * SCORE_GAP_PENALTY
         else score2)"

text \<open>
  The \<open>for query_idx, query_char in enumerate(query_lower)\<close> loop of \<open>fuzzy_match\<close>, with
  the loop variables \<open>positions\<close>, \<open>score\<close>, \<open>target_idx\<close> and \<open>prev_match_idx\<close> passed
  along.
\<close>

fun match_loop ::
  "case_tables \<Rightarrow> str \<Rightarrow> str \<Rightarrow> (nat \<times> code_point) list \<Rightarrow> nat list \<Rightarrow> int \<Rightarrow> nat \<Rightarrow> int
     \<Rightarrow> FuzzyMatch option" where
  "match_loop T target target_lower [] poss sc target_idx prev_match_idx =
     Some \<lparr>score = sc, positions = poss\<rparr>"
| "match_loop T target target_lower ((query_idx, query_char) # rest) poss sc target_idx
      prev_match_idx =
     (case scan target_lower (length target) query_char target_idx of
        None \<Rightarrow> None
      | Some i \<Rightarrow>
          match_loop T target target_lower rest (poss @ [i])
            (score_match T target query_idx i prev_match_idx sc) (i + 1) (int i))"

definition fuzzy_match :: "case_tables \<Rightarrow> str \<Rightarrow> str \<Rightarrow> FuzzyMatch option" where
  "fuzzy_match T query target =
     (if query = [] then Some \<lparr>score = 0, positions = []\<rparr>
      else let query_lower = lower T query;
               target_lower = lower T target
           in if length query > length target then None
              else match_loop T target target_lower (enumerate 0 query_lower) [] 0 0 (- 1))"

text \<open>The same loop in \<open>fuzzy_score\<close>, which keeps no position list.\<close>

fun score_loop ::
  "case_tables \<Rightarrow> str \<Rightarrow> str \<Rightarrow> (nat \<times> code_point) list \<Rightarrow> int \<Rightarrow> nat \<Rightarrow> int
     \<Rightarrow> int option" where
  "score_loop T target target_lower [] sc target_idx prev_match_idx = Some sc"
| "score_loop T target target_lower ((query_idx, query_char) # rest) sc target_idx
      prev_match_idx =
     (case scan target_lower (length target) query_char target_idx of
        None \<Rightarrow> None
      | Some i \<Rightarrow>
          score_loop T target target_lower rest
            (score_match T target query_idx i prev_match_idx sc) (i + 1) (int i))"

definition fuzzy_score :: "case_tables \<Rightarrow> str \<Rightarrow> str \<Rightarrow> int option" where
  "fuzzy_score T query target =
     (if query = [] then Some 0
      else let query_lower = lower T query;
               target_lower = lower T target
           in if length query > length target then None
              else score_loop T target target_lower (enumerate 0 query_lower) 0 0 (- 1))"

section \<open>The ranker\<close>

text \<open>
  The Python slice \<open>xs[:limit]\<close>: the first \<open>limit\<close> elements for a limit that is not
  negative, and all but the last \<open>- limit\<close> elements for a negative one.
\<close>

definition slice_to :: "'a list \<Rightarrow> int \<Rightarrow> 'a list" where
  "slice_to xs limit =
     (if limit \<ge> 0 then take (nat limit) xs
      else take (length xs - nat (- limit)) xs)"

definition default_limit :: int where
  "default_limit = 50"

text \<open>The \<open>for item in items\<close> loop of \<open>rank_matches\<close>, appending to \<open>scored\<close>.\<close>

fun collect_scored ::
  "case_tables \<Rightarrow> str \<Rightarrow> ('a \<Rightarrow> str) \<Rightarrow> 'a list \<Rightarrow> ('a \<times> int) list \<Rightarrow> ('a \<times> int) list" where
  "collect_scored T query key [] scored = scored"
| "collect_scored T query key (item # items) scored =
     (let target = key item
      in case fuzzy_score T query target of
           None \<Rightarrow> collect_scored T query key items scored
         | Some sc \<Rightarrow> collect_scored T query key items (scored @ [(item, sc)]))"

text \<open>
  \<open>list.sort\<close> is a stable sort, as \<^const>\<open>sort_key\<close> is; the key
  \<open>(-x[1], key(x[0]))\<close> is a tuple, compared lexicographically, whose second component is
  a string, compared lexicographically by code point.
\<close>

definition rank_matches ::
  "case_tables \<Rightarrow> str \<Rightarrow> 'a list \<Rightarrow> ('a \<Rightarrow> str) \<Rightarrow> int \<Rightarrow> ('a \<times> int) list" where
  "rank_matches T query items key limit =
     (if query = [] then map (\<lambda>item. (item, 0)) (slice_to items limit)
      else let scored = collect_scored T query key items [];
               scored = sort_key (\<lambda>x. (- snd x, key (fst x))) scored
           in slice_to scored limit)"

section \<open>The candidate prefilter\<close>

text \<open>\<open>s.replace(old, new)\<close> for a one-character \<open>old\<close>.\<close>

definition replace :: "str \<Rightarrow> code_point \<Rightarrow> str \<Rightarrow> str" where
  "replace s old new = concat (map (\<lambda>c. if c = old then new else [c]) s)"

text \<open>\<open>sep.join(parts)\<close>.\<close>

fun join :: "str \<Rightarrow> str list \<Rightarrow> str" where
  "join sep [] = []"
| "join sep [x] = x"
| "join sep (x # y # ys) = x @ sep @ join sep (y # ys)"

text \<open>Iterating over a string yields its characters as one-character strings.\<close>

definition chars :: "str \<Rightarrow> str list" where
  "chars s = map (\<lambda>c. [c]) s"

definition percent :: code_point where
  "percent = of_char CHR ''%''"

definition underscore :: code_point where
  "underscore = of_char CHR ''_''"

definition backslash :: code_point where
  "backslash = of_char CHR 0x5C"

definition build_sql_pattern :: "case_tables \<Rightarrow> str \<Rightarrow> str" where
  "build_sql_pattern T query =
     (if query = [] then [percent]
      else let escaped = replace (replace query percent [backslash, percent])
                           underscore [backslash, underscore]
           in [percent] @ join [percent] (chars (lower T escaped)) @ [percent])"

section \<open>Alignments and subsequences\<close>




section \<open>Ranked order\<close>

text \<open>
  The order of a ranked result: every adjacent pair \<open>(c1, s1)\<close>, \<open>(c2, s2)\<close> has
  \<open>s1 > s2\<close>, or \<open>s1 = s2\<close> and \<open>key c1 \<le> key c2\<close>.
\<close>

definition ranked_order :: "('a \<Rightarrow> str) \<Rightarrow> ('a \<times> int) list \<Rightarrow> bool" where
  "ranked_order key out =
     successively (\<lambda>(c1, s1) (c2, s2). s1 > s2 \<or> (s1 = s2 \<and> key c1 \<le> key c2)) out"

text \<open>What the loop of \<open>rank_matches\<close> collects, in closed form.\<close>

definition scored_of ::
  "case_tables \<Rightarrow> str \<Rightarrow> ('a \<Rightarrow> str) \<Rightarrow> 'a list \<Rightarrow> ('a \<times> int) list" where
  "scored_of T query key items =
     map (\<lambda>item. (item, the (fuzzy_score T query (key item))))
       (filter (\<lambda>item. fuzzy_score T query (key item) \<noteq> None) items)"

text \<open>A ranked result with every candidate replaced by its extracted string.\<close>

definition key_scores :: "('a \<Rightarrow> str) \<Rightarrow> ('a \<times> int) list \<Rightarrow> (str \<times> int) list" where
  "key_scores key out = map (\<lambda>(c, s). (key c, s)) out"

section \<open>Lower-casing\<close>

lemma length_lower_from_ge: "length s \<le> length (lower_from T ls s)"
proof (induction s arbitrary: ls)
  case Nil
  then show ?case by simp
next
  case (Cons c s)
  obtain d ds where "lower_full T ls c s = (d, ds)" by (cases "lower_full T ls c s")
  moreover have "length s \<le> length (lower_from T (ls @ [c]) s)" by (rule Cons.IH)
  ultimately show ?case by simp
qed

lemma length_lower_ge: "length s \<le> length (lower T s)"
  by (simp add: lower_def length_lower_from_ge)





section \<open>Properties of the scan\<close>

lemma scan_Some:
  "scan tlo n c i = Some j \<Longrightarrow>
     i \<le> j \<and> j < n \<and> tlo ! j = c \<and> (\<forall>k. i \<le> k \<and> k < j \<longrightarrow> tlo ! k \<noteq> c)"
proof (induction tlo n c i rule: scan.induct)
  case (1 tlo n c i)
  show ?case
  proof (cases "i < n \<and> tlo ! i \<noteq> c")
    case True
    with "1.prems" have "scan tlo n c (i + 1) = Some j"
      by (simp add: scan.simps [of tlo n c i])
    with "1.IH" True
    have IH: "i + 1 \<le> j \<and> j < n \<and> tlo ! j = c \<and> (\<forall>k. i + 1 \<le> k \<and> k < j \<longrightarrow> tlo ! k \<noteq> c)"
      by simp
    have "tlo ! k \<noteq> c" if "i \<le> k \<and> k < j" for k
    proof (cases "k = i")
      case True with \<open>i < n \<and> tlo ! i \<noteq> c\<close> show ?thesis by simp
    next
      case False with that IH show ?thesis by simp
    qed
    with IH show ?thesis by simp
  next
    case False
    with "1.prems" show ?thesis
      by (auto simp: scan.simps [of tlo n c i] split: if_splits)
  qed
qed



text \<open>
  Every index the scan returns is below \<open>target_len\<close>, so the reads
  \<open>target_lower[target_idx]\<close>, \<open>target[index]\<close> and \<open>target[index - 1]\<close> of the source are
  in range.
\<close>

lemma scan_bounds: "scan tlo n c i = Some j \<Longrightarrow> i \<le> j \<and> j < n"
  using scan_Some by blast

section \<open>The score-only variant\<close>

lemma score_loop_match_loop:
  "score_loop T t tlo qs sc i p = map_option score (match_loop T t tlo qs ps sc i p)"
  by (induction qs arbitrary: ps sc i p) (auto split: option.splits)

text \<open>
  C1.  \<open>fuzzy_score\<close> agrees with \<open>fuzzy_match\<close> on every query and target, whatever the
  case tables: it returns \<open>None\<close> exactly when \<open>fuzzy_match\<close> does, and otherwise the score
  of the match that \<open>fuzzy_match\<close> returns.
\<close>

theorem fuzzy_score_eq_fuzzy_match_score:
  "fuzzy_score T query target = map_option score (fuzzy_match T query target)"
  by (simp add: fuzzy_score_def fuzzy_match_def score_loop_match_loop [where ps = "[]"] Let_def)

section \<open>Concrete scoring outcomes\<close>

text \<open>
  C4.  \<open>fuzzy_match("ab", "ab")\<close> is score 64 at positions (0, 1), and
  \<open>fuzzy_match("fb", "foo_bar")\<close> is score 71 at positions (0, 4).  The contributions are
  16 (first character) + 32 (boundary at index 0) for the first character of either query,
  then 16 (consecutive) for \<open>b\<close> in \<open>ab\<close>, and 32 (boundary after \<open>_\<close>) - 3 * 3 (a gap of three
  skipped characters) for \<open>b\<close> in \<open>foo_bar\<close>.
\<close>

theorem fuzzy_match_concrete_scores:
  "fuzzy_match latin_tables (str_of ''ab'') (str_of ''ab'')
     = Some \<lparr>score = 64, positions = [0, 1]\<rparr>
   \<and> fuzzy_match latin_tables (str_of ''fb'') (str_of ''foo_bar'')
     = Some \<lparr>score = 71, positions = [0, 4]\<rparr>
   \<and> score_match latin_tables (str_of ''ab'') 0 0 (- 1) 0
     = SCORE_FIRST_CHAR + SCORE_WORD_BOUNDARY
   \<and> score_match latin_tables (str_of ''ab'') 1 1 0 48 = 48 + SCORE_CONSECUTIVE
   \<and> score_match latin_tables (str_of ''foo_bar'') 0 0 (- 1) 0
     = SCORE_FIRST_CHAR + SCORE_WORD_BOUNDARY
   \<and> score_match latin_tables (str_of ''foo_bar'') 1 4 0 48
     = 48 + SCORE_WORD_BOUNDARY + 3 * SCORE_GAP_PENALTY
   \<and> SCORE_FIRST_CHAR = 16 \<and> SCORE_WORD_BOUNDARY = 32 \<and> SCORE_CONSECUTIVE = 16
   \<and> SCORE_GAP_PENALTY = - 3"
  by code_simp

section \<open>The ranker: browsing with an empty query\<close>

lemma slice_to_nonneg: "0 \<le> limit \<Longrightarrow> slice_to xs limit = take (nat limit) xs"
  by (simp add: slice_to_def)

text \<open>
  C8.  With an empty query and a limit that is not negative, \<open>rank_matches\<close> returns
  exactly \<open>min(limit, len(items))\<close> pairs, the i-th being the i-th input item with score 0.
\<close>

theorem rank_matches_empty_query:
  assumes "0 \<le> limit"
  shows "length (rank_matches T [] items key limit) = min (nat limit) (length items)
         \<and> (\<forall>i < min (nat limit) (length items).
               rank_matches T [] items key limit ! i = (items ! i, 0))"
  using assms by (simp add: rank_matches_def slice_to_nonneg)

theorem rank_matches_empty_query_witness:
  "(0::int) \<le> 2
   \<and> length (rank_matches latin_tables [] [''x'', ''y'', ''z''] str_of 2) = 2
   \<and> rank_matches latin_tables [] [''x'', ''y'', ''z''] str_of 2 ! 0 = (''x'', 0)
   \<and> rank_matches latin_tables [] [''x'', ''y'', ''z''] str_of 2 ! 1 = (''y'', 0)"
proof -
  have h: "(0::int) \<le> 2" by simp
  from rank_matches_empty_query [OF h, of latin_tables "[''x'', ''y'', ''z'']" str_of]
  show ?thesis by simp
qed

section \<open>The matcher returns the leftmost alignment\<close>









section \<open>Subsequences and index embeddings\<close>













section \<open>Soundness, completeness and leftmost alignment of the matcher\<close>










section \<open>The ranker: order and length of the result\<close>

lemma collect_scored_eq:
  "collect_scored T query key items scored = scored @ scored_of T query key items"
  by (induction items arbitrary: scored) (auto simp: scored_of_def split: option.splits)

lemma rank_matches_nonempty:
  "query \<noteq> [] \<Longrightarrow> rank_matches T query items key limit =
     slice_to (sort_key (\<lambda>x. (- snd x, key (fst x))) (scored_of T query key items)) limit"
  by (simp add: rank_matches_def collect_scored_eq)

lemma length_slice_to: "0 \<le> limit \<Longrightarrow> length (slice_to xs limit) \<le> nat limit"
  by (simp add: slice_to_def)

lemma successively_take: "successively P xs \<Longrightarrow> successively P (take n xs)"
proof (induction xs arbitrary: n rule: induct_list012)
  case 1
  then show ?case by simp
next
  case (2 x)
  then show ?case by (cases n) simp_all
next
  case (3 x y zs)
  show ?case
  proof (cases n)
    case 0
    then show ?thesis by simp
  next
    case (Suc n')
    from "3.prems" have "P x y" "successively P (y # zs)" by simp_all
    then have "successively P (take n' (y # zs))" using "3.IH"(2) by blast
    with \<open>P x y\<close> Suc show ?thesis by (cases n') simp_all
  qed
qed

lemma sorted_imp_ranked_order:
  "sorted (map (\<lambda>x. (- snd x, key (fst x))) out) \<Longrightarrow> ranked_order key out"
  unfolding ranked_order_def
proof (induction out rule: induct_list012)
  case (3 x y zs)
  then show ?case by (auto simp: less_eq_prod_def)
qed simp_all

lemma ranked_order_sort:
  "ranked_order key (sort_key (\<lambda>x. (- snd x, key (fst x))) xs)"
  by (rule sorted_imp_ranked_order) (rule sorted_sort_key)

lemma ranked_order_slice: "ranked_order key xs \<Longrightarrow> ranked_order key (slice_to xs limit)"
  by (simp add: ranked_order_def slice_to_def successively_take)

text \<open>
  C3.  For a limit that is not negative (the default limit is one), the result of
  \<open>rank_matches\<close> has at most \<open>limit\<close> pairs, and for a query that is not empty its
  adjacent pairs are in ranked order: score descending, ties by extracted string ascending.
\<close>

theorem rank_matches_sorted:
  assumes "0 \<le> limit"
  shows "length (rank_matches T query items key limit) \<le> nat limit
         \<and> (query \<noteq> [] \<longrightarrow> ranked_order key (rank_matches T query items key limit))"
proof -
  have "length (rank_matches T query items key limit) \<le> nat limit"
    using assms by (simp add: rank_matches_def length_slice_to Let_def)
  moreover have "ranked_order key (rank_matches T query items key limit)" if "query \<noteq> []"
    using that by (simp add: rank_matches_nonempty ranked_order_sort ranked_order_slice)
  ultimately show ?thesis by blast
qed

theorem rank_matches_sorted_witness:
  "(0::int) \<le> default_limit
   \<and> length (rank_matches latin_tables (str_of ''a'') [''ba'', ''ab'', ''xyz'', ''A''] str_of default_limit) \<le> nat default_limit
   \<and> str_of ''a'' \<noteq> []
   \<and> ranked_order str_of (rank_matches latin_tables (str_of ''a'') [''ba'', ''ab'', ''xyz'', ''A''] str_of default_limit)
   \<and> rank_matches latin_tables (str_of ''a'') [''ba'', ''ab'', ''xyz'', ''A''] str_of default_limit
       = [(''A'', 48), (''ab'', 48), (''ba'', 0)]"
proof -
  have h: "(0::int) \<le> default_limit" by (simp add: default_limit_def)
  have q: "str_of ''a'' \<noteq> []" by (simp add: str_of_def)
  have v: "rank_matches latin_tables (str_of ''a'') [''ba'', ''ab'', ''xyz'', ''A''] str_of default_limit
       = [(''A'', 48), (''ab'', 48), (''ba'', 0)]" by code_simp
  from rank_matches_sorted [OF h, of latin_tables "str_of ''a''" "[''ba'', ''ab'', ''xyz'', ''A'']" str_of] q
  have "length (rank_matches latin_tables (str_of ''a'') [''ba'', ''ab'', ''xyz'', ''A''] str_of default_limit) \<le> nat default_limit"
    and "ranked_order str_of (rank_matches latin_tables (str_of ''a'') [''ba'', ''ab'', ''xyz'', ''A''] str_of default_limit)"
    by blast+
  with h q v show ?thesis by blast
qed

text \<open>
  With an empty query the result is the input order with score 0 throughout, in which the
  extracted strings of adjacent pairs need not ascend.
\<close>

theorem browse_order_not_ranked:
  "rank_matches latin_tables [] [''b'', ''a''] str_of default_limit = [(''b'', 0), (''a'', 0)]
   \<and> \<not> ranked_order str_of (rank_matches latin_tables [] [''b'', ''a''] str_of default_limit)"
  by code_simp

section \<open>The ranker: a negative limit\<close>

lemma length_scored_of: "length (scored_of T query key items) \<le> length items"
  by (simp add: scored_of_def)

lemma slice_to_all: "length xs \<le> n \<Longrightarrow> slice_to xs (int n) = xs"
  by (simp add: slice_to_def)

lemma slice_to_negative:
  "limit < 0 \<Longrightarrow> slice_to xs limit = take (length xs - nat (- limit)) xs"
  by (simp add: slice_to_def)

lemma rank_matches_all:
  "rank_matches T query items key (int (length items)) =
     (if query = [] then map (\<lambda>item. (item, 0)) items
      else sort_key (\<lambda>x. (- snd x, key (fst x))) (scored_of T query key items))"
  by (simp add: rank_matches_def collect_scored_eq slice_to_all length_scored_of)

text \<open>
  C6.  A negative limit is not rejected: \<open>rank_matches\<close> returns the full ranked (or, for
  an empty query, browsed) sequence without its last \<open>- limit\<close> pairs, as the slice
  \<open>xs[:limit]\<close> does.  The full sequence is the result for the limit \<open>len(items)\<close>.
\<close>

theorem rank_matches_negative_limit:
  assumes "limit < 0"
  shows "rank_matches T query items key limit =
           take (length (rank_matches T query items key (int (length items))) - nat (- limit))
             (rank_matches T query items key (int (length items)))"
proof (cases "query = []")
  case True
  with assms show ?thesis
    by (simp add: rank_matches_all) (simp add: rank_matches_def slice_to_negative take_map)
next
  case False
  with assms show ?thesis
    by (simp add: rank_matches_all) (simp add: rank_matches_nonempty slice_to_negative)
qed

theorem rank_matches_negative_limit_witness:
  "(- 2 :: int) < 0
   \<and> rank_matches latin_tables (str_of ''n'') [''notes'', ''ideas'', ''plan'', ''N''] str_of (int (length [''notes'', ''ideas'', ''plan'', ''N'']))
       = [(''N'', 48), (''notes'', 48), (''plan'', 0)]
   \<and> rank_matches latin_tables (str_of ''n'') [''notes'', ''ideas'', ''plan'', ''N''] str_of (- 2) = [(''N'', 48)]"
proof -
  have h: "(- 2 :: int) < 0" by simp
  have full: "rank_matches latin_tables (str_of ''n'') [''notes'', ''ideas'', ''plan'', ''N''] str_of (int (length [''notes'', ''ideas'', ''plan'', ''N'']))
       = [(''N'', 48), (''notes'', 48), (''plan'', 0)]" by code_simp
  from rank_matches_negative_limit [OF h, of latin_tables "str_of ''n''" "[''notes'', ''ideas'', ''plan'', ''N'']" str_of]
  have "rank_matches latin_tables (str_of ''n'') [''notes'', ''ideas'', ''plan'', ''N''] str_of (- 2) = [(''N'', 48)]"
    unfolding full by simp
  with h full show ?thesis by blast
qed

text \<open>A result sequence is returned at the limit \<open>-1\<close>, for a query and for the empty query.\<close>

theorem rank_matches_negative_limit_returns:
  "rank_matches latin_tables (str_of ''a'') [''ab'', ''ba'', ''a''] str_of (- 1) = [(''a'', 48), (''ab'', 48)]
   \<and> rank_matches latin_tables [] [''x'', ''y'', ''z''] str_of (- 1) = [(''x'', 0), (''y'', 0)]"
  by code_simp

section \<open>The ranker: permuted inputs\<close>

lemma mset_scored_of:
  "mset items1 = mset items2 \<Longrightarrow>
     mset (scored_of T query key items1) = mset (scored_of T query key items2)"
  by (simp add: scored_of_def)

lemma inj_on_sort_key_scored:
  assumes "inj_on key (set items)"
  shows "inj_on (\<lambda>x. (- snd x, key (fst x))) (set (scored_of T query key items))"
proof (rule inj_onI)
  fix x y
  assume x: "x \<in> set (scored_of T query key items)" and y: "y \<in> set (scored_of T query key items)"
    and e: "(- snd x, key (fst x)) = (- snd y, key (fst y))"
  from x y have "fst x \<in> set items" "fst y \<in> set items" by (auto simp: scored_of_def)
  with assms e have "fst x = fst y" by (auto dest: inj_onD)
  with e show "x = y" by (simp add: prod_eq_iff)
qed

lemma insort_key_map:
  "map g (insort_key (\<lambda>x. f (g x)) x xs) = insort_key f (g x) (map g xs)"
  by (induction xs) simp_all

lemma sort_key_map:
  "map g (sort_key (\<lambda>x. f (g x)) xs) = sort_key f (map g xs)"
  by (induction xs) (simp_all add: insort_key_map)

lemma key_scores_slice: "key_scores key (slice_to xs limit) = slice_to (key_scores key xs) limit"
  by (simp add: key_scores_def slice_to_def take_map)

lemma key_scores_sorted:
  "key_scores key (sort_key (\<lambda>x. (- snd x, key (fst x))) xs)
     = sort_key (\<lambda>(k, s). (- s, k)) (key_scores key xs)"
proof -
  have "map (\<lambda>(c, s). (key c, s))
          (sort_key (\<lambda>x. (\<lambda>(k, s). (- s, k)) ((\<lambda>(c, s). (key c, s)) x)) xs)
        = sort_key (\<lambda>(k, s). (- s, k)) (map (\<lambda>(c, s). (key c, s)) xs)"
    by (rule sort_key_map)
  then show ?thesis
    by (simp add: key_scores_def case_prod_beta)
qed

lemma prefix_filter_take: "prefix (filter P (take n xs)) (filter P xs)"
proof -
  have "filter P (take n xs @ drop n xs) = filter P (take n xs) @ filter P (drop n xs)"
    by (rule filter_append)
  then have "filter P xs = filter P (take n xs) @ filter P (drop n xs)" by simp
  then show ?thesis by (rule prefixI)
qed

lemma prefix_filter_slice: "prefix (filter P (slice_to xs limit)) (filter P xs)"
  by (simp add: slice_to_def prefix_filter_take)

lemma filter_scored_of:
  "map fst (filter (\<lambda>x. key (fst x) = k) (scored_of T query key items))
     = (if fuzzy_score T query k = None then [] else filter (\<lambda>c. key c = k) items)"
proof -
  have "map fst (filter (\<lambda>x. key (fst x) = k) (scored_of T query key items))
          = filter (\<lambda>c. key c = k \<and> fuzzy_score T query (key c) \<noteq> None) items"
    by (simp add: scored_of_def filter_map comp_def conj_commute)
  also have "\<dots> = filter (\<lambda>c. key c = k \<and> fuzzy_score T query k \<noteq> None) items"
    by (rule filter_cong) auto
  also have "\<dots> = (if fuzzy_score T query k = None then [] else filter (\<lambda>c. key c = k) items)"
    by simp
  finally show ?thesis .
qed

text \<open>
  The sort is stable: the candidates of the result with one extracted string stand in
  their input order.
\<close>

lemma rank_matches_stable:
  assumes "query \<noteq> []"
  shows "prefix (map fst (filter (\<lambda>x. key (fst x) = k) (rank_matches T query items key limit)))
           (filter (\<lambda>c. key c = k) items)"
proof -
  let ?f = "\<lambda>x. (- snd x, key (fst x))"
  let ?S = "scored_of T query key items"
  let ?K = "(- the (fuzzy_score T query k), k)"
  have same: "(key (fst x) = k) = (?f x = ?K)" if "x \<in> set ?S" for x
    using that by (auto simp: scored_of_def)
  have "filter (\<lambda>x. key (fst x) = k) (sort_key ?f ?S)
          = filter (\<lambda>x. ?f x = ?K) (sort_key ?f ?S)"
  proof (rule filter_cong [OF refl])
    fix x assume "x \<in> set (sort_key ?f ?S)"
    then have "x \<in> set ?S" by simp
    then show "(key (fst x) = k) = (?f x = ?K)" by (rule same)
  qed
  also have "\<dots> = filter (\<lambda>x. ?f x = ?K) ?S" by (rule sort_key_stable)
  also have "\<dots> = filter (\<lambda>x. key (fst x) = k) ?S"
  proof (rule filter_cong [OF refl])
    fix x assume "x \<in> set ?S"
    then show "(?f x = ?K) = (key (fst x) = k)" by (rule same [symmetric])
  qed
  finally have sorted_part: "filter (\<lambda>x. key (fst x) = k) (sort_key ?f ?S)
          = filter (\<lambda>x. key (fst x) = k) ?S" .
  have "prefix (filter (\<lambda>x. key (fst x) = k) (rank_matches T query items key limit))
          (filter (\<lambda>x. key (fst x) = k) ?S)"
    using assms prefix_filter_slice [of "\<lambda>x. key (fst x) = k" "sort_key ?f ?S" limit]
    by (simp add: rank_matches_nonempty sorted_part)
  then have "prefix (map fst (filter (\<lambda>x. key (fst x) = k) (rank_matches T query items key limit)))
          (map fst (filter (\<lambda>x. key (fst x) = k) ?S))"
    by (rule map_mono_prefix)
  then show ?thesis by (simp add: filter_scored_of split: if_splits)
qed

text \<open>
  C7.  For a non-empty query, a limit that is not negative and two inputs that are
  permutations of each other, the results carry the same sequence of
  (extracted string, score) pairs, and the results themselves are equal when the key
  function is injective on the candidates.  Candidates with one extracted string keep
  their input order: those in the result are, in order, the first of them in the input.
\<close>

theorem rank_matches_permutation:
  assumes "query \<noteq> []" "0 \<le> limit" "mset items1 = mset items2"
  shows "key_scores key (rank_matches T query items1 key limit)
           = key_scores key (rank_matches T query items2 key limit)
         \<and> (inj_on key (set items1) \<longrightarrow>
              rank_matches T query items1 key limit = rank_matches T query items2 key limit)
         \<and> (\<forall>k. prefix (map fst (filter (\<lambda>x. key (fst x) = k)
                                     (rank_matches T query items1 key limit)))
                        (filter (\<lambda>c. key c = k) items1))"
proof (intro conjI impI)
  show "\<forall>k. prefix (map fst (filter (\<lambda>x. key (fst x) = k)
                                  (rank_matches T query items1 key limit)))
                     (filter (\<lambda>c. key c = k) items1)"
    using assms(1) by (simp add: rank_matches_stable)
  from assms(3) have ms: "mset (scored_of T query key items1) = mset (scored_of T query key items2)"
    by (rule mset_scored_of)
  then have "mset (key_scores key (scored_of T query key items1))
           = mset (key_scores key (scored_of T query key items2))"
    by (simp add: key_scores_def)
  moreover have "inj_on (\<lambda>(k, s). (- s, k)) A" for A :: "(str \<times> int) set"
    by (auto intro!: inj_onI)
  ultimately have "sort_key (\<lambda>(k, s). (- s, k)) (key_scores key (scored_of T query key items1))
      = sort_key (\<lambda>(k, s). (- s, k)) (key_scores key (scored_of T query key items2))"
    by (rule sort_key_eq_sort_key)
  with assms(1) show "key_scores key (rank_matches T query items1 key limit)
           = key_scores key (rank_matches T query items2 key limit)"
    by (simp add: rank_matches_nonempty key_scores_slice key_scores_sorted)
  assume "inj_on key (set items1)"
  then have "inj_on (\<lambda>x. (- snd x, key (fst x))) (set (scored_of T query key items1))"
    by (rule inj_on_sort_key_scored)
  with ms have "sort_key (\<lambda>x. (- snd x, key (fst x))) (scored_of T query key items1)
      = sort_key (\<lambda>x. (- snd x, key (fst x))) (scored_of T query key items2)"
    by (rule sort_key_eq_sort_key)
  with assms(1) show "rank_matches T query items1 key limit = rank_matches T query items2 key limit"
    by (simp add: rank_matches_nonempty)
qed

theorem rank_matches_permutation_witness:
  "str_of ''a'' \<noteq> [] \<and> (0::int) \<le> 3
   \<and> mset [(1::nat, ''ab''), (2, ''a''), (3, ''ab'')] = mset [(3, ''ab''), (2, ''a''), (1::nat, ''ab'')]
   \<and> key_scores (\<lambda>x. str_of (snd x))
        (rank_matches latin_tables (str_of ''a'') [(1::nat, ''ab''), (2, ''a''), (3, ''ab'')]
           (\<lambda>x. str_of (snd x)) 3)
       = key_scores (\<lambda>x. str_of (snd x))
        (rank_matches latin_tables (str_of ''a'') [(3, ''ab''), (2, ''a''), (1::nat, ''ab'')]
           (\<lambda>x. str_of (snd x)) 3)
   \<and> rank_matches latin_tables (str_of ''a'') [(1::nat, ''ab''), (2, ''a''), (3, ''ab'')]
           (\<lambda>x. str_of (snd x)) 3
       = [((2, ''a''), 48), ((1, ''ab''), 48), ((3, ''ab''), 48)]
   \<and> prefix (map fst (filter (\<lambda>x. str_of (snd (fst x)) = str_of ''ab'')
        (rank_matches latin_tables (str_of ''a'') [(1::nat, ''ab''), (2, ''a''), (3, ''ab'')]
           (\<lambda>x. str_of (snd x)) 3)))
        (filter (\<lambda>c. str_of (snd c) = str_of ''ab'') [(1::nat, ''ab''), (2, ''a''), (3, ''ab'')])
   \<and> mset [(1::nat, ''ba''), (2, ''ab''), (3, ''A'')] = mset [(3, ''A''), (1::nat, ''ba''), (2, ''ab'')]
   \<and> inj_on (\<lambda>x. str_of (snd x)) (set [(1::nat, ''ba''), (2, ''ab''), (3, ''A'')])
   \<and> rank_matches latin_tables (str_of ''a'') [(1::nat, ''ba''), (2, ''ab''), (3, ''A'')]
           (\<lambda>x. str_of (snd x)) 3
       = rank_matches latin_tables (str_of ''a'') [(3, ''A''), (1::nat, ''ba''), (2, ''ab'')]
           (\<lambda>x. str_of (snd x)) 3"
proof -
  have h1: "str_of ''a'' \<noteq> []" by (simp add: str_of_def)
  have h2: "(0::int) \<le> 3" by simp
  have h3: "mset [(1::nat, ''ab''), (2, ''a''), (3, ''ab'')] = mset [(3, ''ab''), (2, ''a''), (1::nat, ''ab'')]"
    by simp
  have g3: "mset [(1::nat, ''ba''), (2, ''ab''), (3, ''A'')] = mset [(3, ''A''), (1::nat, ''ba''), (2, ''ab'')]"
    by simp
  have g4: "inj_on (\<lambda>x. str_of (snd x)) (set [(1::nat, ''ba''), (2, ''ab''), (3, ''A'')])"
    by (simp add: str_of_def)
  have v: "rank_matches latin_tables (str_of ''a'') [(1::nat, ''ab''), (2, ''a''), (3, ''ab'')]
           (\<lambda>x. str_of (snd x)) 3
       = [((2, ''a''), 48), ((1, ''ab''), 48), ((3, ''ab''), 48)]" by code_simp
  note dup = rank_matches_permutation [OF h1 h2 h3, of "\<lambda>x. str_of (snd x)" latin_tables]
  note inj = rank_matches_permutation [OF h1 h2 g3, of "\<lambda>x. str_of (snd x)" latin_tables]
  from dup have a: "key_scores (\<lambda>x. str_of (snd x))
        (rank_matches latin_tables (str_of ''a'') [(1::nat, ''ab''), (2, ''a''), (3, ''ab'')]
           (\<lambda>x. str_of (snd x)) 3)
       = key_scores (\<lambda>x. str_of (snd x))
        (rank_matches latin_tables (str_of ''a'') [(3, ''ab''), (2, ''a''), (1::nat, ''ab'')]
           (\<lambda>x. str_of (snd x)) 3)" by blast
  from dup have b: "prefix (map fst (filter (\<lambda>x. str_of (snd (fst x)) = str_of ''ab'')
        (rank_matches latin_tables (str_of ''a'') [(1::nat, ''ab''), (2, ''a''), (3, ''ab'')]
           (\<lambda>x. str_of (snd x)) 3)))
        (filter (\<lambda>c. str_of (snd c) = str_of ''ab'') [(1::nat, ''ab''), (2, ''a''), (3, ''ab'')])"
    by blast
  from inj g4 have c: "rank_matches latin_tables (str_of ''a'') [(1::nat, ''ba''), (2, ''ab''), (3, ''A'')]
           (\<lambda>x. str_of (snd x)) 3
       = rank_matches latin_tables (str_of ''a'') [(3, ''A''), (1::nat, ''ba''), (2, ''ab'')]
           (\<lambda>x. str_of (snd x)) 3" by blast
  from h1 h2 h3 a v b g3 g4 c show ?thesis by blast
qed

text \<open>
  Two candidates with one extracted string keep their input order, so the result depends
  on the order of the input.
\<close>

theorem rank_matches_order_dependent:
  "mset [(1::nat, ''a''), (2, ''a'')] = mset [(2, ''a''), (1::nat, ''a'')]
   \<and> rank_matches latin_tables (str_of ''a'') [(1::nat, ''a''), (2, ''a'')]
        (\<lambda>x. str_of (snd x)) default_limit
        = [((1, ''a''), 48), ((2, ''a''), 48)]
   \<and> rank_matches latin_tables (str_of ''a'') [(2, ''a''), (1::nat, ''a'')]
        (\<lambda>x. str_of (snd x)) default_limit
        = [((2, ''a''), 48), ((1, ''a''), 48)]
   \<and> rank_matches latin_tables (str_of ''a'') [(1::nat, ''a''), (2, ''a'')]
        (\<lambda>x. str_of (snd x)) default_limit
        \<noteq> rank_matches latin_tables (str_of ''a'') [(2, ''a''), (1::nat, ''a'')]
        (\<lambda>x. str_of (snd x)) default_limit"
proof -
  have 1: "rank_matches latin_tables (str_of ''a'') [(1::nat, ''a''), (2, ''a'')]
        (\<lambda>x. str_of (snd x)) default_limit
        = [((1, ''a''), 48), ((2, ''a''), 48)]" by code_simp
  have 2: "rank_matches latin_tables (str_of ''a'') [(2, ''a''), (1::nat, ''a'')]
        (\<lambda>x. str_of (snd x)) default_limit
        = [((2, ''a''), 48), ((1, ''a''), 48)]" by code_simp
  have 3: "mset [(1::nat, ''a''), (2, ''a'')] = mset [(2, ''a''), (1::nat, ''a'')]" by simp
  show ?thesis unfolding 1 2 using 3 by simp
qed

section \<open>The candidate prefilter: escaping\<close>

text \<open>
  The pattern is a \<open>%\<close> followed by every code point of the lower-cased, escaped query,
  each followed by a \<open>%\<close>.
\<close>

lemma join_chars:
  "s \<noteq> [] \<Longrightarrow> join [percent] (chars s) @ [percent] = concat (map (\<lambda>c. [c, percent]) s)"
proof (induction s rule: induct_list012)
  case (3 x y zs)
  then show ?case by (simp add: chars_def)
qed (simp_all add: chars_def)

lemma replace_nonempty: "s \<noteq> [] \<Longrightarrow> new \<noteq> [] \<Longrightarrow> replace s old new \<noteq> []"
  by (cases s) (auto simp: replace_def)

lemma lower_nonempty: "s \<noteq> [] \<Longrightarrow> lower T s \<noteq> []"
  using length_lower_ge [of s T] by auto

lemma build_sql_pattern_interleaved:
  assumes "query \<noteq> []"
  shows "build_sql_pattern T query =
       percent # concat (map (\<lambda>c. [c, percent])
          (lower T (replace (replace query percent [backslash, percent])
                      underscore [backslash, underscore])))"
proof -
  from assms
  have "lower T (replace (replace query percent [backslash, percent])
                   underscore [backslash, underscore]) \<noteq> []"
    by (simp add: lower_nonempty replace_nonempty)
  from join_chars [OF this] assms show ?thesis
    by (simp add: build_sql_pattern_def Let_def)
qed

text \<open>
  So every \<open>_\<close> of a pattern stands directly after a \<open>%\<close>, whatever the query: none
  stands directly after the escape marker.
\<close>

lemma interleaved_underscore:
  "successively (\<lambda>a b. b = underscore \<longrightarrow> a = percent)
     (percent # concat (map (\<lambda>c. [c, percent]) s))"
  by (induction s) (simp_all add: underscore_def percent_def)

lemma build_sql_pattern_underscore_follows_percent:
  "successively (\<lambda>a b. b = underscore \<longrightarrow> a = percent) (build_sql_pattern T query)
   \<and> hd (build_sql_pattern T query) = percent"
proof (cases "query = []")
  case True
  then show ?thesis by (simp add: build_sql_pattern_def)
next
  case False
  then show ?thesis
    by (simp only: build_sql_pattern_interleaved interleaved_underscore list.sel simp_thms)
qed

text \<open>
  C5.  \<open>build_sql_pattern\<close> on the query \<open>a_b\<close>: the escaped string is \<open>a\_b\<close>, and the
  join runs over it, so the pattern is \<open>%a%\%_%b%\<close>.  The \<open>_\<close> is at index 5 and the
  character before it is \<open>%\<close>, not the escape marker, which stands before a \<open>%\<close>.  On a
  query without \<open>%\<close> and \<open>_\<close> the pattern is as the specification gives it
  (\<open>ab\<close> becomes \<open>%a%b%\<close>), and the empty query gives \<open>%\<close>.
\<close>

theorem build_sql_pattern_underscore_not_escaped:
  "build_sql_pattern latin_tables (str_of ''a_b'') =
     str_of [CHR ''%'', CHR ''a'', CHR ''%'', CHR 0x5C, CHR ''%'', CHR ''_'', CHR ''%'',
             CHR ''b'', CHR ''%'']
   \<and> build_sql_pattern latin_tables (str_of ''a_b'') ! 5 = underscore
   \<and> build_sql_pattern latin_tables (str_of ''a_b'') ! 4 \<noteq> backslash
   \<and> build_sql_pattern latin_tables (str_of ''ab'') = str_of ''%a%b%''
   \<and> build_sql_pattern latin_tables [] = str_of ''%''"
  by code_simp


end
